theory Spec2Isabelle
  imports Complex_Main
begin

section \<open>Embedding a torch Sequential network into a solver model\<close>

text \<open>
  A shallow embedding of \<^verbatim>\<open>gurobi_ml/torch/sequential.py\<close>. The Python objects are
  records, the exceptions are values of the type \<open>error\<close>, and the solver model, which
  the Python mutates in place, is passed through the functions and returned.
  Floating-point numbers are read as reals.
\<close>

subsection \<open>The network\<close>

type_synonym vector = "real list"
type_synonym matrix = "real list list"

text \<open>
  A step of the \<^verbatim>\<open>nn.Sequential\<close>: an \<^verbatim>\<open>nn.Linear\<close> with its parameter named
  \<^verbatim>\<open>weight\<close> (of shape [out, in]) and its parameter named \<^verbatim>\<open>bias\<close>; an
  \<^verbatim>\<open>nn.ReLU\<close>; or a module of any other class, with the name of that class. An
  \<^verbatim>\<open>nn.Linear\<close> has no parameter named \<^verbatim>\<open>bias\<close> when it was built with
  \<^verbatim>\<open>bias=False\<close>, and none named \<^verbatim>\<open>weight\<close> when it was re-parametrised (weight
  normalisation keeps the weight under the names \<^verbatim>\<open>weight_g\<close> and \<^verbatim>\<open>weight_v\<close>).
\<close>

datatype layer = Linear "matrix option" "vector option" | ReLU | Other string

fun isinstance_ReLU :: "layer \<Rightarrow> bool" where
  "isinstance_ReLU ReLU = True"
| "isinstance_ReLU _ = False"

fun isinstance_Linear :: "layer \<Rightarrow> bool" where
  "isinstance_Linear (Linear W b) = True"
| "isinstance_Linear _ = False"

text \<open>\<^verbatim>\<open>type(step).__name__\<close>\<close>

fun type_name :: "layer \<Rightarrow> string" where
  "type_name (Linear W b) = ''Linear''"
| "type_name ReLU = ''ReLU''"
| "type_name (Other n) = n"

subsection \<open>Errors\<close>

datatype error =
    NoModel "layer list" string
  | NoSolution
  | UnboundLocalError string
  | KeyError string
  | AttributeError
  | ValueError

subsection \<open>The solver model\<close>

text \<open>
  Variables are numbered in the order of their creation; a variable array (an MVar) is
  the rows of the variables it holds. A constraint is a linear equality
  \<open>y = \<Sum> c * x + b\<close> or the exact rectified-linear relation \<open>y = max 0 x\<close>.
  The field \<open>solution\<close> holds the values of the variables once the model was optimised
  and found feasible.
\<close>

type_synonym var = nat
type_synonym var_array = "var list list"

datatype constr = LinEq var "(var \<times> real) list" real | MaxZero var var

record gp_model =
  num_vars :: nat
  constrs :: "constr list"
  solution :: "(var \<Rightarrow> real) option"

datatype activation = Identity | ReLUGC

datatype layer_params = DenseLayer matrix vector | ActivationLayer

record layer_embedding =
  layer_name :: nat
  layer_input :: var_array
  layer_output :: var_array
  layer_params :: layer_params
  layer_activation :: activation
  layer_constrs :: "constr list"
  activation_vars :: "var_array option"

record sequential_constr =
  self_gp_model :: gp_model
  self_predictor :: "layer list"
  self_input :: var_array
  self_output :: "var_array option"
  self_layers :: "layer_embedding list"

subsection \<open>The base class\<close>

text \<open>
  Modelled from the spec: the activation dictionary \<^verbatim>\<open>self.actdict\<close> of the base class
  \<^verbatim>\<open>BaseNNConstr\<close>, with the two activation kinds of the specification.
\<close>

definition actdict :: "string \<Rightarrow> activation option" where
  "actdict = map_of [(''relu'', ReLUGC), (''identity'', Identity)]"

text \<open>
  Modelled from the spec: the creation of a fresh variable array of \<open>n\<close> rows and \<open>k\<close>
  columns on the solver model.
\<close>

definition addMVar :: "gp_model \<Rightarrow> nat \<Rightarrow> nat \<Rightarrow> var_array \<times> gp_model" where
  "addMVar m n k =
     (map (\<lambda>r. map (\<lambda>c. num_vars m + r * k + c) [0..<k]) [0..<n],
      m\<lparr>num_vars := num_vars m + n * k\<rparr>)"

text \<open>
  Modelled from the spec: the affine layer encoder \<^verbatim>\<open>add_dense_layer\<close> of the base
  class (section 4.2). When no output array is given it creates one, of one row per row
  of the input and one column per entry of the bias; for every row and every output column
  it adds the equality \<open>output[row, col] = \<Sum>j X[row, j] * W[j, col] + b[col]\<close>; it
  appends the layer embedding to the list of the object and returns it. The layer
  embedding keeps the arguments of the call. The name \<^verbatim>\<open>f"{i}"\<close> is kept as the
  number \<open>i\<close>. Agreement of the dimensions is a precondition.
\<close>

definition add_dense_layer ::
  "sequential_constr \<Rightarrow> var_array \<Rightarrow> matrix \<Rightarrow> vector \<Rightarrow> activation \<Rightarrow>
   var_array option \<Rightarrow> nat \<Rightarrow> layer_embedding \<times> sequential_constr" where
  "add_dense_layer self input_vars layer_coefs layer_intercept activation act_vars name =
     (let (out, m) = (case act_vars of
                        Some v \<Rightarrow> (v, self_gp_model self)
                      | None \<Rightarrow> addMVar (self_gp_model self) (length input_vars)
                                  (length layer_intercept));
          cs = concat (map (\<lambda>(xrow, orow).
                 map (\<lambda>(y, wcol, b). LinEq y (zip xrow wcol) b)
                   (zip orow (zip (transpose layer_coefs) layer_intercept)))
                 (zip input_vars out));
          layer = \<lparr>layer_name = name, layer_input = input_vars, layer_output = out,
                   layer_params = DenseLayer layer_coefs layer_intercept,
                   layer_activation = activation, layer_constrs = cs,
                   activation_vars = act_vars\<rparr>
      in (layer, self\<lparr>self_gp_model := m\<lparr>constrs := constrs m @ cs\<rparr>,
                      self_layers := self_layers self @ [layer]\<rparr>))"

text \<open>
  Modelled from the spec: the activation layer encoder \<^verbatim>\<open>add_activation_layer\<close> of the
  base class (section 4.3). When no output array is given it creates one of the shape of
  the input; element by element it adds \<open>output = input\<close> for the identity and
  \<open>output = max 0 input\<close> for the rectified-linear activation.
\<close>

fun act_constr :: "activation \<Rightarrow> var \<times> var \<Rightarrow> constr" where
  "act_constr Identity (x, y) = LinEq y [(x, 1)] 0"
| "act_constr ReLUGC (x, y) = MaxZero y x"

definition add_activation_layer ::
  "sequential_constr \<Rightarrow> var_array \<Rightarrow> activation \<Rightarrow> var_array option \<Rightarrow> nat \<Rightarrow>
   layer_embedding \<times> sequential_constr" where
  "add_activation_layer self input_vars activation act_vars name =
     (let (out, m) = (case act_vars of
                        Some v \<Rightarrow> (v, self_gp_model self)
                      | None \<Rightarrow> addMVar (self_gp_model self) (length input_vars)
                                  (case input_vars of [] \<Rightarrow> 0 | r # _ \<Rightarrow> length r));
          cs = concat (map (\<lambda>(xrow, orow). map (act_constr activation) (zip xrow orow))
                 (zip input_vars out));
          layer = \<lparr>layer_name = name, layer_input = input_vars, layer_output = out,
                   layer_params = ActivationLayer,
                   layer_activation = activation, layer_constrs = cs,
                   activation_vars = act_vars\<rparr>
      in (layer, self\<lparr>self_gp_model := m\<lparr>constrs := constrs m @ cs\<rparr>,
                      self_layers := self_layers self @ [layer]\<rparr>))"

subsection \<open>The embedding pass\<close>

text \<open>
  The local variables of \<^verbatim>\<open>_mip_model\<close>. \<^verbatim>\<open>output\<close> is bound from the start and
  holds \<^verbatim>\<open>None\<close> or an array; \<^verbatim>\<open>layer_weight\<close>, \<^verbatim>\<open>layer_bias\<close> and \<^verbatim>\<open>layer\<close>
  are unbound (here \<open>None\<close>) until their first assignment, and reading an unbound local
  raises \<^verbatim>\<open>UnboundLocalError\<close>.
\<close>

record locals =
  l_input :: var_array
  l_output :: "var_array option"
  l_layer_weight :: "matrix option"
  l_layer_bias :: "vector option"
  l_layer :: "layer_embedding option"

text \<open>
  \<^verbatim>\<open>step.named_parameters()\<close> of an \<^verbatim>\<open>nn.Linear\<close>: the parameter named
  \<^verbatim>\<open>weight\<close> when the module has one, then the parameter named \<^verbatim>\<open>bias\<close> when it
  has one. Parameters of other names, which the loop reads and drops, are left out.
\<close>

fun named_parameters :: "layer \<Rightarrow> (string \<times> (matrix + vector)) list" where
  "named_parameters (Linear W b) =
     (case W of None \<Rightarrow> [] | Some w \<Rightarrow> [(''weight'', Inl w)]) @
     (case b of None \<Rightarrow> [] | Some v \<Rightarrow> [(''bias'', Inr v)])"
| "named_parameters _ = []"

text \<open>
  One iteration of the loop over the named parameters (lines 103 to 107); the weight is
  transposed (\<^verbatim>\<open>.numpy().T\<close>).
\<close>

fun read_parameter :: "locals \<Rightarrow> string \<times> (matrix + vector) \<Rightarrow> locals" where
  "read_parameter l (name, Inl W) =
     (if name = ''weight'' then l\<lparr>l_layer_weight := Some (transpose W)\<rparr> else l)"
| "read_parameter l (name, Inr v) =
     (if name = ''weight'' then l
      else if name = ''bias'' then l\<lparr>l_layer_bias := Some v\<rparr> else l)"

text \<open>The body of the loop of \<^verbatim>\<open>_mip_model\<close> (lines 92 to 116).\<close>

definition mip_step ::
  "nat \<Rightarrow> nat \<times> layer \<Rightarrow> locals \<Rightarrow> sequential_constr \<Rightarrow>
   (error + locals) \<times> sequential_constr" where
  "mip_step numlayers ist l0 self =
     (let i = fst ist; step = snd ist;
          l = (if int i = int numlayers - 1 then l0\<lparr>l_output := self_output self\<rparr> else l0)
      in if isinstance_ReLU step then
           (case actdict ''relu'' of
              None \<Rightarrow> (Inl (KeyError ''relu''), self)
            | Some act \<Rightarrow>
                (let (layer, self') = add_activation_layer self (l_input l) act (l_output l) i
                 in (Inr (l\<lparr>l_layer := Some layer, l_input := layer_output layer\<rparr>), self')))
         else if isinstance_Linear step then
           (let l = foldl read_parameter l (named_parameters step)
            in case l_layer_weight l of
                 None \<Rightarrow> (Inl (UnboundLocalError ''layer_weight''), self)
               | Some layer_weight \<Rightarrow>
                  (case l_layer_bias l of
                     None \<Rightarrow> (Inl (UnboundLocalError ''layer_bias''), self)
                   | Some layer_bias \<Rightarrow>
                      (case actdict ''identity'' of
                         None \<Rightarrow> (Inl (KeyError ''identity''), self)
                       | Some act \<Rightarrow>
                          (let (layer, self') =
                                 add_dense_layer self (l_input l) layer_weight layer_bias act
                                   (l_output l) i
                           in (Inr (l\<lparr>l_layer := Some layer, l_input := layer_output layer\<rparr>),
                               self')))))
         else (Inr l, self))"

fun mip_loop ::
  "nat \<Rightarrow> (nat \<times> layer) list \<Rightarrow> locals \<Rightarrow> sequential_constr \<Rightarrow>
   (error + locals) \<times> sequential_constr" where
  "mip_loop numlayers [] l self = (Inr l, self)"
| "mip_loop numlayers (ist # rest) l self =
     (case mip_step numlayers ist l self of
        (Inl e, self') \<Rightarrow> (Inl e, self')
      | (Inr l', self') \<Rightarrow> mip_loop numlayers rest l' self')"

text \<open>
  \<^verbatim>\<open>_mip_model\<close> (lines 85 to 118). The result is the exception raised, if any, and
  the object as the call leaves it.
\<close>

definition mip_model :: "sequential_constr \<Rightarrow> (error + unit) \<times> sequential_constr" where
  "mip_model self =
     (let network = self_predictor self;
          l = \<lparr>l_input = self_input self, l_output = None, l_layer_weight = None,
               l_layer_bias = None, l_layer = None\<rparr>;
          numlayers = length network
      in case mip_loop numlayers (enumerate 0 network) l self of
           (Inl e, self') \<Rightarrow> (Inl e, self')
         | (Inr l', self') \<Rightarrow>
             (if self_output self' = None then
                (case l_layer l' of
                   None \<Rightarrow> (Inl (UnboundLocalError ''layer''), self')
                 | Some layer \<Rightarrow> (Inr (), self'\<lparr>self_output := Some (layer_output layer)\<rparr>))
              else (Inr (), self')))"

subsection \<open>Construction\<close>

text \<open>
  Modelled from the spec: the object as the constructor of the base class
  \<^verbatim>\<open>BaseNNConstr\<close> sets it up before the embedding pass (section 4.4). It holds the
  solver model, the network and the caller's arrays, and no layer embedding yet.
\<close>

definition new_object ::
  "gp_model \<Rightarrow> layer list \<Rightarrow> var_array \<Rightarrow> var_array option \<Rightarrow> sequential_constr" where
  "new_object gpm predictor input_vars output_vars =
     \<lparr>self_gp_model = gpm, self_predictor = predictor, self_input = input_vars,
      self_output = output_vars, self_layers = []\<rparr>"

text \<open>
  Modelled from the spec: the constructor of the base class \<^verbatim>\<open>BaseNNConstr\<close>
  (section 4.4), which sets the object up and runs the embedding pass. The second
  component of the result is the solver model as the call leaves it, also when it raises.
\<close>

definition BaseNNConstr_init ::
  "gp_model \<Rightarrow> layer list \<Rightarrow> var_array \<Rightarrow> var_array option \<Rightarrow>
   (error + sequential_constr) \<times> gp_model" where
  "BaseNNConstr_init gpm predictor input_vars output_vars =
     (case mip_model (new_object gpm predictor input_vars output_vars) of
        (Inl e, self) \<Rightarrow> (Inl e, self_gp_model self)
      | (Inr u, self) \<Rightarrow> (Inr self, self_gp_model self))"

text \<open>The validation loop of \<^verbatim>\<open>SequentialConstr.__init__\<close> (lines 74 to 80).\<close>

fun validate :: "layer list \<Rightarrow> layer list \<Rightarrow> error + unit" where
  "validate predictor [] = Inr ()"
| "validate predictor (step # rest) =
     (if isinstance_ReLU step then validate predictor rest
      else if isinstance_Linear step then validate predictor rest
      else Inl (NoModel predictor (''Unsupported layer '' @ type_name step)))"

text \<open>\<^verbatim>\<open>SequentialConstr.__init__\<close> (lines 72 to 83).\<close>

definition SequentialConstr_init ::
  "gp_model \<Rightarrow> layer list \<Rightarrow> var_array \<Rightarrow> var_array option \<Rightarrow>
   (error + sequential_constr) \<times> gp_model" where
  "SequentialConstr_init gpm predictor input_vars output_vars =
     (case validate predictor predictor of
        Inl e \<Rightarrow> (Inl e, gpm)
      | Inr u \<Rightarrow> BaseNNConstr_init gpm predictor input_vars output_vars)"

text \<open>\<^verbatim>\<open>add_sequential_constr\<close> (lines 27 to 65).\<close>

definition add_sequential_constr ::
  "gp_model \<Rightarrow> layer list \<Rightarrow> var_array \<Rightarrow> var_array option \<Rightarrow>
   (error + sequential_constr) \<times> gp_model" where
  "add_sequential_constr gpm sequential_model input_vars output_vars =
     SequentialConstr_init gpm sequential_model input_vars output_vars"

subsection \<open>Error evaluation\<close>

text \<open>
  Modelled from the spec: the attribute \<^verbatim>\<open>X\<close> of a variable array, the values of its
  variables in the solution of the model (section 4.5). Reading it when the model holds
  no solution raises.
\<close>

definition mvar_X :: "gp_model \<Rightarrow> var_array \<Rightarrow> error + matrix" where
  "mvar_X m vs =
     (case solution m of None \<Rightarrow> Inl AttributeError | Some s \<Rightarrow> Inr (map (map s) vs))"

text \<open>
  Modelled from the spec: \<^verbatim>\<open>self.output.X\<close>, the values of the output array of the
  object; an object with no output array has none.
\<close>

definition output_X :: "sequential_constr \<Rightarrow> error + matrix" where
  "output_X self =
     (case self_output self of
        None \<Rightarrow> Inl AttributeError
      | Some out \<Rightarrow> mvar_X (self_gp_model self) out)"

text \<open>
  Modelled from the spec: \<^verbatim>\<open>_has_solution\<close> of the base class (section 4.5): the solver
  model holds a completed solution for the input and the output arrays of the object. It
  only reads.
\<close>

definition has_solution :: "sequential_constr \<Rightarrow> bool \<times> sequential_constr" where
  "has_solution self =
     (case mvar_X (self_gp_model self) (self_input self) of
        Inl e \<Rightarrow> (False, self)
      | Inr xi \<Rightarrow> (case output_X self of Inl e \<Rightarrow> (False, self) | Inr xo \<Rightarrow> (True, self)))"

text \<open>
  The subtraction of two arrays of numpy, element by element. Arrays of different
  shapes, which numpy broadcasts or refuses, are outside the model and give the error.
\<close>

definition np_sub :: "matrix \<Rightarrow> matrix \<Rightarrow> error + matrix" where
  "np_sub A B =
     (if map length A = map length B
      then Inr (map (\<lambda>(ra, rb). map (\<lambda>(a, b). a - b) (zip ra rb)) (zip A B))
      else Inl ValueError)"

text \<open>
  \<^verbatim>\<open>get_error\<close> (lines 120 to 140). The conversion to single precision
  (\<^verbatim>\<open>torch.from_numpy(...).float()\<close>) and the evaluation of the network by torch
  (\<^verbatim>\<open>predictor.forward\<close>) belong to torch and are parameters. The result is the value
  returned or the exception raised, and the object as the call leaves it.
\<close>

definition get_error ::
  "(matrix \<Rightarrow> matrix) \<Rightarrow> (layer list \<Rightarrow> matrix \<Rightarrow> matrix) \<Rightarrow> sequential_constr \<Rightarrow>
   (error + matrix) \<times> sequential_constr" where
  "get_error to_float forward self0 =
     (let (ok, self) = has_solution self0
      in if ok then
           (case mvar_X (self_gp_model self) (self_input self) of
              Inl e \<Rightarrow> (Inl e, self)
            | Inr input_X \<Rightarrow>
                (let t_in = to_float input_X;
                     t_out = forward (self_predictor self) t_in
                 in case output_X self of
                      Inl e \<Rightarrow> (Inl e, self)
                    | Inr out_X \<Rightarrow> (np_sub t_out out_X, self)))
         else (Inl NoSolution, self))"

subsection \<open>Notions used in the statements\<close>

text \<open>
  A step is supported when one of the two \<^verbatim>\<open>isinstance\<close> tests holds of it.
\<close>

definition supported :: "layer \<Rightarrow> bool" where
  "supported s = (isinstance_ReLU s \<or> isinstance_Linear s)"

text \<open>
  The values of the locals \<^verbatim>\<open>layer_weight\<close> and \<^verbatim>\<open>layer_bias\<close> after the steps
  \<open>xs\<close>, from the values \<open>acc\<close> before them: the transposed weight, and the bias, of the
  last \<^verbatim>\<open>nn.Linear\<close> of \<open>xs\<close> that has one, and \<open>acc\<close> when there is none.
\<close>

fun last_weight :: "matrix option \<Rightarrow> layer list \<Rightarrow> matrix option" where
  "last_weight acc [] = acc"
| "last_weight acc (Linear (Some W) b # rest) = last_weight (Some (transpose W)) rest"
| "last_weight acc (s # rest) = last_weight acc rest"

fun last_bias :: "vector option \<Rightarrow> layer list \<Rightarrow> vector option" where
  "last_bias acc [] = acc"
| "last_bias acc (Linear W (Some b) # rest) = last_bias (Some b) rest"
| "last_bias acc (s # rest) = last_bias acc rest"

text \<open>
  \<open>layer_ok n ov w0 b0 xs L\<close> says that the layer embedding \<open>L\<close> is what the pass over the
  steps \<open>xs\<close> of a network of \<open>n\<close> steps builds for the step of index \<open>layer_name L\<close>:
  the output array handed to the encoder is the caller's \<open>ov\<close> for the last step of the
  network and \<^verbatim>\<open>None\<close> before, and an array handed to the encoder is the output of the
  layer; an \<^verbatim>\<open>nn.ReLU\<close> gives an activation layer; an \<^verbatim>\<open>nn.Linear\<close> gives a dense
  layer with the weight and the bias that the locals hold at that step.
\<close>

definition layer_ok ::
  "nat \<Rightarrow> var_array option \<Rightarrow> matrix option \<Rightarrow> vector option \<Rightarrow> layer list \<Rightarrow>
   layer_embedding \<Rightarrow> bool" where
  "layer_ok n ov w0 b0 xs L =
     (layer_name L < length xs \<and>
      activation_vars L = (if Suc (layer_name L) = n then ov else None) \<and>
      (case activation_vars L of None \<Rightarrow> True | Some out \<Rightarrow> layer_output L = out) \<and>
      (case xs ! layer_name L of
         ReLU \<Rightarrow> layer_params L = ActivationLayer \<and> layer_activation L = ReLUGC
       | Linear W b \<Rightarrow>
           layer_activation L = Identity \<and>
           (case last_weight w0 (take (Suc (layer_name L)) xs) of
              None \<Rightarrow> False
            | Some w \<Rightarrow>
               (case last_bias b0 (take (Suc (layer_name L)) xs) of
                  None \<Rightarrow> False
                | Some b' \<Rightarrow> layer_params L = DenseLayer w b'))
       | Other c \<Rightarrow> False))"

text \<open>
  \<open>unbound_at w0 b0 xs k e\<close> says that the step of index \<open>k\<close> of \<open>xs\<close> is an
  \<^verbatim>\<open>nn.Linear\<close> at which a local is read unbound, and that \<open>e\<close> is the error this
  raises: for \<^verbatim>\<open>layer_weight\<close>, which is read first, or else for \<^verbatim>\<open>layer_bias\<close>.
\<close>

definition unbound_at ::
  "matrix option \<Rightarrow> vector option \<Rightarrow> layer list \<Rightarrow> nat \<Rightarrow> error \<Rightarrow> bool" where
  "unbound_at w0 b0 xs k e =
     (k < length xs \<and> isinstance_Linear (xs ! k) \<and>
      (case last_weight w0 (take (Suc k) xs) of
         None \<Rightarrow> e = UnboundLocalError ''layer_weight''
       | Some w \<Rightarrow> last_bias b0 (take (Suc k) xs) = None \<and>
                   e = UnboundLocalError ''layer_bias''))"

text \<open>The first statement of the loop body (lines 92 and 93).\<close>

definition set_output :: "nat \<Rightarrow> nat \<Rightarrow> locals \<Rightarrow> sequential_constr \<Rightarrow> locals" where
  "set_output n i l self = (if int i = int n - 1 then l\<lparr>l_output := self_output self\<rparr> else l)"

text \<open>
  \<open>chained x Ls\<close> says that the first layer embedding of \<open>Ls\<close> reads \<open>x\<close> and each
  further one reads the output of the one before.
\<close>

fun chained :: "var_array \<Rightarrow> layer_embedding list \<Rightarrow> bool" where
  "chained x [] = True"
| "chained x (L # Ls) = (layer_input L = x \<and> chained (layer_output L) Ls)"

section \<open>Properties\<close>

subsection \<open>The encoders and one step of the pass\<close>

lemma add_dense_layer_fields:
  "layer_name (fst (add_dense_layer self x W b a ov i)) = i"
  "layer_input (fst (add_dense_layer self x W b a ov i)) = x"
  "layer_params (fst (add_dense_layer self x W b a ov i)) = DenseLayer W b"
  "layer_activation (fst (add_dense_layer self x W b a ov i)) = a"
  "activation_vars (fst (add_dense_layer self x W b a ov i)) = ov"
  "layer_output (fst (add_dense_layer self x W b a (Some out) i)) = out"
  by (simp_all add: add_dense_layer_def Let_def split_def)

lemma add_dense_layer_self:
  "self_layers (snd (add_dense_layer self x W b a ov i)) =
     self_layers self @ [fst (add_dense_layer self x W b a ov i)]"
  "self_output (snd (add_dense_layer self x W b a ov i)) = self_output self"
  "self_input (snd (add_dense_layer self x W b a ov i)) = self_input self"
  "self_predictor (snd (add_dense_layer self x W b a ov i)) = self_predictor self"
  by (simp_all add: add_dense_layer_def Let_def split_def)

lemma add_activation_layer_fields:
  "layer_name (fst (add_activation_layer self x a ov i)) = i"
  "layer_input (fst (add_activation_layer self x a ov i)) = x"
  "layer_params (fst (add_activation_layer self x a ov i)) = ActivationLayer"
  "layer_activation (fst (add_activation_layer self x a ov i)) = a"
  "activation_vars (fst (add_activation_layer self x a ov i)) = ov"
  "layer_output (fst (add_activation_layer self x a (Some out) i)) = out"
  by (simp_all add: add_activation_layer_def Let_def split_def)

lemma add_activation_layer_self:
  "self_layers (snd (add_activation_layer self x a ov i)) =
     self_layers self @ [fst (add_activation_layer self x a ov i)]"
  "self_output (snd (add_activation_layer self x a ov i)) = self_output self"
  "self_input (snd (add_activation_layer self x a ov i)) = self_input self"
  "self_predictor (snd (add_activation_layer self x a ov i)) = self_predictor self"
  by (simp_all add: add_activation_layer_def Let_def split_def)

lemma set_output_fields:
  "l_input (set_output n i l self) = l_input l"
  "l_layer_weight (set_output n i l self) = l_layer_weight l"
  "l_layer_bias (set_output n i l self) = l_layer_bias l"
  "l_layer (set_output n i l self) = l_layer l"
  "l_output (set_output n i l self) = (if int i = int n - 1 then self_output self else l_output l)"
  by (simp_all add: set_output_def)

lemma mip_step_Other:
  "mip_step n (i, Other c) l self = (Inr (set_output n i l self), self)"
  by (simp add: mip_step_def set_output_def Let_def)

lemma mip_step_ReLU:
  "mip_step n (i, ReLU) l self =
     (let l1 = set_output n i l self;
          r = add_activation_layer self (l_input l1) ReLUGC (l_output l1) i
      in (Inr (l1\<lparr>l_layer := Some (fst r), l_input := layer_output (fst r)\<rparr>), snd r))"
  by (simp add: mip_step_def set_output_def actdict_def Let_def split_def)

lemma mip_step_Linear:
  "mip_step n (i, Linear W b) l self =
     (let l1 = (set_output n i l self)
                 \<lparr>l_layer_weight := last_weight (l_layer_weight l) [Linear W b],
                  l_layer_bias := last_bias (l_layer_bias l) [Linear W b]\<rparr>
      in case l_layer_weight l1 of
           None \<Rightarrow> (Inl (UnboundLocalError ''layer_weight''), self)
         | Some w \<Rightarrow>
            (case l_layer_bias l1 of
               None \<Rightarrow> (Inl (UnboundLocalError ''layer_bias''), self)
             | Some v \<Rightarrow>
                (let r = add_dense_layer self (l_input l1) w v Identity (l_output l1) i
                 in (Inr (l1\<lparr>l_layer := Some (fst r), l_input := layer_output (fst r)\<rparr>),
                     snd r))))"
  by (cases W; cases b)
     (simp_all add: mip_step_def set_output_def actdict_def Let_def split_def
        split: option.splits)

subsection \<open>The loop\<close>

lemma mip_loop_append:
  "mip_loop n (as @ bs) l self =
     (case mip_loop n as l self of
        (Inl e, s') \<Rightarrow> (Inl e, s')
      | (Inr l', s') \<Rightarrow> mip_loop n bs l' s')"
  by (induction as arbitrary: l self) (auto split: prod.splits sum.splits)

lemma mip_loop_snoc:
  "mip_loop n (enumerate 0 (xs @ [s])) l self =
     (case mip_loop n (enumerate 0 xs) l self of
        (Inl e, s') \<Rightarrow> (Inl e, s')
      | (Inr l', s') \<Rightarrow> mip_step n (length xs, s) l' s')"
  by (simp add: enumerate_append_eq mip_loop_append split: prod.splits sum.splits)

lemma mip_step_frame:
  "mip_step n ist l self = (r, self') \<Longrightarrow>
     self_output self' = self_output self \<and> self_input self' = self_input self \<and>
     self_predictor self' = self_predictor self"
proof (cases ist)
  case (Pair i step)
  assume h: "mip_step n ist l self = (r, self')"
  show ?thesis
  proof (cases step)
    case (Linear W b)
    with h Pair show ?thesis
      by (auto simp: mip_step_Linear Let_def add_dense_layer_self split: option.splits)
  next
    case ReLU
    with h Pair show ?thesis
      by (auto simp: mip_step_ReLU Let_def add_activation_layer_self)
  next
    case (Other c)
    with h Pair show ?thesis by (auto simp: mip_step_Other)
  qed
qed

lemma mip_loop_frame:
  "mip_loop n steps l self = (r, self') \<Longrightarrow>
     self_output self' = self_output self \<and> self_input self' = self_input self \<and>
     self_predictor self' = self_predictor self"
proof (induction steps arbitrary: l self)
  case Nil
  then show ?case by simp
next
  case (Cons ist rest)
  obtain r1 s1 where st: "mip_step n ist l self = (r1, s1)" by (cases "mip_step n ist l self")
  from mip_step_frame [OF st] have f1: "self_output s1 = self_output self"
    "self_input s1 = self_input self" "self_predictor s1 = self_predictor self" by simp_all
  show ?case
  proof (cases r1)
    case (Inl e)
    with Cons.prems st f1 show ?thesis by auto
  next
    case (Inr l1)
    with Cons.prems st have "mip_loop n rest l1 s1 = (r, self')" by simp
    from Cons.IH [OF this] f1 show ?thesis by simp
  qed
qed

lemma last_weight_append: "last_weight acc (xs @ ys) = last_weight (last_weight acc xs) ys"
  by (induction acc xs rule: last_weight.induct) simp_all

lemma last_bias_append: "last_bias acc (xs @ ys) = last_bias (last_bias acc xs) ys"
  by (induction acc xs rule: last_bias.induct) simp_all

lemma last_weight_not_Linear: "\<not> isinstance_Linear s \<Longrightarrow> last_weight acc [s] = acc"
  by (cases s) simp_all

lemma last_bias_not_Linear: "\<not> isinstance_Linear s \<Longrightarrow> last_bias acc [s] = acc"
  by (cases s) simp_all

lemma mip_step_locals:
  assumes "mip_step n (i, s) l self = (Inr l', self')"
  shows "l_output l' = (if int i = int n - 1 then self_output self else l_output l) \<and>
         l_layer_weight l' = last_weight (l_layer_weight l) [s] \<and>
         l_layer_bias l' = last_bias (l_layer_bias l) [s]"
proof (cases s)
  case (Linear W b)
  with assms show ?thesis
    by (auto simp: mip_step_Linear Let_def set_output_fields split: option.splits)
next
  case ReLU
  with assms show ?thesis by (auto simp: mip_step_ReLU Let_def set_output_fields)
next
  case (Other c)
  with assms show ?thesis by (auto simp: mip_step_Other set_output_fields)
qed

lemma mip_loop_locals:
  "mip_loop n (enumerate 0 xs) l self = (Inr l', self') \<Longrightarrow> length xs \<le> n \<Longrightarrow>
   l_output l = None \<Longrightarrow>
     l_output l' = (if xs \<noteq> [] \<and> length xs = n then self_output self else None) \<and>
     l_layer_weight l' = last_weight (l_layer_weight l) xs \<and>
     l_layer_bias l' = last_bias (l_layer_bias l) xs"
proof (induction xs arbitrary: l' self' rule: rev_induct)
  case Nil
  then show ?case by simp
next
  case (snoc s xs)
  from snoc.prems(1) obtain l1 s1 where
    pre: "mip_loop n (enumerate 0 xs) l self = (Inr l1, s1)" and
    st: "mip_step n (length xs, s) l1 s1 = (Inr l', self')"
    by (auto simp: mip_loop_snoc split: prod.splits sum.splits)
  from snoc.prems have len: "length xs < n" by simp
  from snoc.IH [OF pre _ snoc.prems(3)] len
  have l1: "l_output l1 = None" "l_layer_weight l1 = last_weight (l_layer_weight l) xs"
    "l_layer_bias l1 = last_bias (l_layer_bias l) xs" by simp_all
  from mip_loop_frame [OF pre] have f: "self_output s1 = self_output self" by simp
  from mip_step_locals [OF st] l1 f len show ?case
    by (auto simp: last_weight_append last_bias_append)
qed

lemma layer_ok_append:
  assumes "layer_ok n ov w0 b0 xs L"
  shows "layer_ok n ov w0 b0 (xs @ ys) L"
proof -
  from assms have lt: "layer_name L < length xs" by (simp add: layer_ok_def)
  then have tk: "take (Suc (layer_name L)) (xs @ ys) = take (Suc (layer_name L)) xs"
    and nt: "(xs @ ys) ! layer_name L = xs ! layer_name L"
    and lt': "layer_name L < length (xs @ ys)" by (simp_all add: nth_append)
  from assms lt' show ?thesis unfolding layer_ok_def tk nt by blast
qed

lemma unbound_at_append:
  assumes "unbound_at w0 b0 xs k e"
  shows "unbound_at w0 b0 (xs @ ys) k e"
proof -
  from assms have lt: "k < length xs" by (simp add: unbound_at_def)
  then have tk: "take (Suc k) (xs @ ys) = take (Suc k) xs"
    and nt: "(xs @ ys) ! k = xs ! k"
    and lt': "k < length (xs @ ys)" by (simp_all add: nth_append)
  from assms lt' show ?thesis unfolding unbound_at_def tk nt by blast
qed

lemma chained_snoc:
  "chained x (Ls @ [L]) =
     (chained x Ls \<and> layer_input L = (if Ls = [] then x else layer_output (last Ls)))"
  by (induction Ls arbitrary: x) auto

lemma layer_ok_dense:
  assumes "last_weight w0 (xs @ [Linear W b]) = Some w"
    and "last_bias b0 (xs @ [Linear W b]) = Some v"
  shows "layer_ok n ov w0 b0 (xs @ [Linear W b])
           (fst (add_dense_layer self x w v Identity
              (if int (length xs) = int n - 1 then ov else None) (length xs)))"
  using assms by (cases ov) (auto simp: layer_ok_def add_dense_layer_fields)

lemma layer_ok_activation:
  "layer_ok n ov w0 b0 (xs @ [ReLU])
           (fst (add_activation_layer self x ReLUGC
              (if int (length xs) = int n - 1 then ov else None) (length xs)))"
  by (cases ov) (auto simp: layer_ok_def add_activation_layer_fields)

text \<open>
  What one step does, at the end of the steps \<open>xs\<close> already made: it passes over a step
  that is not supported; for a supported step it builds one layer embedding, or raises
  for an unbound local and leaves the object as it was.
\<close>

lemma mip_step_result:
  assumes st: "mip_step n (length xs, s) l self = (r, self')"
    and lo: "l_output l = None"
    and lw: "l_layer_weight l = last_weight w0 xs"
    and lb: "l_layer_bias l = last_bias b0 xs"
  shows "(\<not> supported s \<and> self' = self \<and>
            (\<exists>l'. r = Inr l' \<and> l_layer l' = l_layer l \<and> l_input l' = l_input l)) \<or>
         (supported s \<and>
            (\<exists>l' L. r = Inr l' \<and> self_layers self' = self_layers self @ [L] \<and>
               layer_name L = length xs \<and> layer_input L = l_input l \<and>
               l_layer l' = Some L \<and> l_input l' = layer_output L \<and>
               layer_ok n (self_output self) w0 b0 (xs @ [s]) L)) \<or>
         (supported s \<and> self' = self \<and>
            (\<exists>e. r = Inl e \<and> unbound_at w0 b0 (xs @ [s]) (length xs) e))"
proof (cases s)
  case (Other c)
  with st show ?thesis by (auto simp: mip_step_Other supported_def set_output_fields)
next
  case ReLU
  let ?L = "fst (add_activation_layer self (l_input l) ReLUGC
              (if int (length xs) = int n - 1 then self_output self else None) (length xs))"
  have ok: "layer_ok n (self_output self) w0 b0 (xs @ [s]) ?L"
    unfolding ReLU by (rule layer_ok_activation)
  from st ReLU lo have "\<exists>l'. r = Inr l' \<and> self_layers self' = self_layers self @ [?L] \<and>
      l_layer l' = Some ?L \<and> l_input l' = layer_output ?L"
    by (auto simp: mip_step_ReLU Let_def add_activation_layer_self set_output_fields)
  moreover have "layer_name ?L = length xs" "layer_input ?L = l_input l"
    by (simp_all add: add_activation_layer_fields)
  moreover have "supported s" by (simp add: ReLU supported_def)
  ultimately show ?thesis using ok by blast
next
  case (Linear W b)
  have sup: "supported s" by (simp add: Linear supported_def)
  have lw': "last_weight (l_layer_weight l) [Linear W b] = last_weight w0 (xs @ [s])"
    and lb': "last_bias (l_layer_bias l) [Linear W b] = last_bias b0 (xs @ [s])"
    by (simp_all add: lw lb Linear last_weight_append last_bias_append)
  have tk: "take (Suc (length xs)) (xs @ [s]) = xs @ [s]" by simp
  show ?thesis
  proof (cases "last_weight w0 (xs @ [s])")
    case None
    with st Linear lw' have "r = Inl (UnboundLocalError ''layer_weight'')" "self' = self"
      by (simp_all add: mip_step_Linear Let_def)
    moreover from None have "unbound_at w0 b0 (xs @ [s]) (length xs)
        (UnboundLocalError ''layer_weight'')"
      by (simp add: unbound_at_def tk Linear del: take_append)
    ultimately show ?thesis using sup by blast
  next
    case (Some w)
    note w = Some
    show ?thesis
    proof (cases "last_bias b0 (xs @ [s])")
      case None
      with st Linear lw' lb' w have "r = Inl (UnboundLocalError ''layer_bias'')" "self' = self"
        by (simp_all add: mip_step_Linear Let_def)
      moreover from None w have "unbound_at w0 b0 (xs @ [s]) (length xs)
          (UnboundLocalError ''layer_bias'')"
        by (simp add: unbound_at_def tk Linear del: take_append)
      ultimately show ?thesis using sup by blast
    next
      case (Some v)
      let ?L = "fst (add_dense_layer self (l_input l) w v Identity
              (if int (length xs) = int n - 1 then self_output self else None) (length xs))"
      have ok: "layer_ok n (self_output self) w0 b0 (xs @ [s]) ?L"
        unfolding Linear by (rule layer_ok_dense) (use w Some Linear in simp_all)
      from st Linear lo lw' lb' w Some
      have "\<exists>l'. r = Inr l' \<and> self_layers self' = self_layers self @ [?L] \<and>
          l_layer l' = Some ?L \<and> l_input l' = layer_output ?L"
        by (auto simp: mip_step_Linear Let_def add_dense_layer_self set_output_fields)
      moreover have "layer_name ?L = length xs" "layer_input ?L = l_input l"
        by (simp_all add: add_dense_layer_fields)
      ultimately show ?thesis using ok sup by blast
    qed
  qed
qed

text \<open>
  What the loop does on the steps \<open>xs\<close>: it makes the first \<open>k\<close> steps and builds one
  layer embedding for each supported step among them, in order, each reading the output
  of the one before; then it has made all the steps, or it raises at the step \<open>k\<close> for
  an unbound local.
\<close>

lemma mip_loop_progress:
  "mip_loop n (enumerate 0 xs) l self = (r, self') \<Longrightarrow> length xs \<le> n \<Longrightarrow>
   l_output l = None \<Longrightarrow>
     \<exists>new k. self_layers self' = self_layers self @ new \<and>
       map layer_name new = map fst (filter (\<lambda>is. supported (snd is)) (enumerate 0 (take k xs))) \<and>
       (\<forall>L\<in>set new. layer_ok n (self_output self) (l_layer_weight l) (l_layer_bias l) xs L) \<and>
       chained (l_input l) new \<and>
       (case r of
          Inr l' \<Rightarrow> k = length xs \<and>
            l_layer l' = (if new = [] then l_layer l else Some (last new)) \<and>
            l_input l' = (if new = [] then l_input l else layer_output (last new))
        | Inl e \<Rightarrow> unbound_at (l_layer_weight l) (l_layer_bias l) xs k e)"
proof (induction xs arbitrary: r self' rule: rev_induct)
  case Nil
  then show ?case by auto
next
  case (snoc s xs)
  let ?w0 = "l_layer_weight l" and ?b0 = "l_layer_bias l" and ?ov = "self_output self"
  obtain r1 s1 where pre: "mip_loop n (enumerate 0 xs) l self = (r1, s1)"
    by (cases "mip_loop n (enumerate 0 xs) l self")
  from snoc.prems have len: "length xs < n" by simp
  from snoc.IH [OF pre _ snoc.prems(3)] len obtain new k where
    n1: "self_layers s1 = self_layers self @ new"
    and n2: "map layer_name new =
      map fst (filter (\<lambda>is. supported (snd is)) (enumerate 0 (take k xs)))"
    and n3: "\<forall>L\<in>set new. layer_ok n ?ov ?w0 ?b0 xs L"
    and n4: "chained (l_input l) new"
    and n5: "case r1 of
          Inr l' \<Rightarrow> k = length xs \<and>
            l_layer l' = (if new = [] then l_layer l else Some (last new)) \<and>
            l_input l' = (if new = [] then l_input l else layer_output (last new))
        | Inl e \<Rightarrow> unbound_at ?w0 ?b0 xs k e" by auto
  from n3 have n3': "\<forall>L\<in>set new. layer_ok n ?ov ?w0 ?b0 (xs @ [s]) L"
    by (simp add: layer_ok_append)
  show ?case
  proof (cases r1)
    case (Inl e)
    with snoc.prems(1) pre have rs: "r = Inl e" "self' = s1" by (simp_all add: mip_loop_snoc)
    from n5 Inl have ub: "unbound_at ?w0 ?b0 xs k e" by simp
    then have "k < length xs" by (simp add: unbound_at_def)
    then have tk: "take k (xs @ [s]) = take k xs" by simp
    from ub have "unbound_at ?w0 ?b0 (xs @ [s]) k e" by (rule unbound_at_append)
    with rs n1 n2 n3' n4 tk show ?thesis
      by (intro exI [of _ new] exI [of _ k]) simp
  next
    case (Inr l1)
    with snoc.prems(1) pre have st: "mip_step n (length xs, s) l1 s1 = (r, self')"
      by (simp add: mip_loop_snoc)
    from n5 Inr have k: "k = length xs"
      and ll: "l_layer l1 = (if new = [] then l_layer l else Some (last new))"
      and li: "l_input l1 = (if new = [] then l_input l else layer_output (last new))"
      by simp_all
    from pre Inr have pre': "mip_loop n (enumerate 0 xs) l self = (Inr l1, s1)" by simp
    from mip_loop_locals [OF pre' _ snoc.prems(3)] len
    have l1: "l_output l1 = None" "l_layer_weight l1 = last_weight ?w0 xs"
      "l_layer_bias l1 = last_bias ?b0 xs" by simp_all
    from mip_loop_frame [OF pre] have f: "self_output s1 = ?ov" by simp
    from n2 k have names: "map layer_name new =
        map fst (filter (\<lambda>is. supported (snd is)) (enumerate 0 xs))" by simp
    have en: "enumerate 0 (xs @ [s]) = enumerate 0 xs @ [(length xs, s)]"
      by (simp add: enumerate_append_eq)
    from mip_step_result [OF st l1] f
    consider
      (skip) l' where "\<not> supported s" "self' = s1" "r = Inr l'" "l_layer l' = l_layer l1"
        "l_input l' = l_input l1"
    | (built) l' L where "supported s" "r = Inr l'" "self_layers self' = self_layers s1 @ [L]"
        "layer_name L = length xs" "layer_input L = l_input l1" "l_layer l' = Some L"
        "l_input l' = layer_output L" "layer_ok n ?ov ?w0 ?b0 (xs @ [s]) L"
    | (raised) e where "supported s" "self' = s1" "r = Inl e"
        "unbound_at ?w0 ?b0 (xs @ [s]) (length xs) e"
      by auto
    then show ?thesis
    proof cases
      case skip
      with n1 names n3' n4 ll li en show ?thesis
        by (intro exI [of _ new] exI [of _ "length (xs @ [s])"]) simp
    next
      case built
      from built(1,4) names en have "map layer_name (new @ [L]) =
          map fst (filter (\<lambda>is. supported (snd is)) (enumerate 0 (take (length (xs @ [s])) (xs @ [s]))))"
        by simp
      moreover from built(3) n1 have "self_layers self' = self_layers self @ (new @ [L])" by simp
      moreover from n3' built(8) have "\<forall>L'\<in>set (new @ [L]). layer_ok n ?ov ?w0 ?b0 (xs @ [s]) L'"
        by simp
      moreover from n4 built(5) li have "chained (l_input l) (new @ [L])"
        by (simp add: chained_snoc)
      ultimately show ?thesis using built(2,6,7)
        by (intro exI [of _ "new @ [L]"] exI [of _ "length (xs @ [s])"]) simp
    next
      case raised
      have "take (length xs) (xs @ [s]) = xs" by simp
      with raised n1 names n3' n4 show ?thesis
        by (intro exI [of _ new] exI [of _ "length xs"]) simp
    qed
  qed
qed

subsection \<open>The embedding pass on a new object\<close>

lemma new_object_fields:
  "self_gp_model (new_object gpm net iv ov) = gpm"
  "self_predictor (new_object gpm net iv ov) = net"
  "self_input (new_object gpm net iv ov) = iv"
  "self_output (new_object gpm net iv ov) = ov"
  "self_layers (new_object gpm net iv ov) = []"
  by (simp_all add: new_object_def)

lemma mip_model_run:
  assumes "mip_model self = (r, self')"
  shows "\<exists>r1 s1.
    mip_loop (length (self_predictor self)) (enumerate 0 (self_predictor self))
       \<lparr>l_input = self_input self, l_output = None, l_layer_weight = None,
        l_layer_bias = None, l_layer = None\<rparr> self = (r1, s1) \<and>
    self_layers self' = self_layers s1 \<and>
    (case r1 of
       Inl e \<Rightarrow> r = Inl e \<and> self' = s1
     | Inr l' \<Rightarrow>
         (if self_output s1 = None
          then (case l_layer l' of
                  None \<Rightarrow> r = Inl (UnboundLocalError ''layer'') \<and> self' = s1
                | Some layer \<Rightarrow>
                    r = Inr () \<and> self' = s1\<lparr>self_output := Some (layer_output layer)\<rparr>)
          else r = Inr () \<and> self' = s1))"
  using assms
  by (auto simp: mip_model_def Let_def split: prod.splits sum.splits option.splits if_splits)

text \<open>
  The embedding pass on the object the constructor sets up: the layer embeddings it has
  built, and how it ends.
\<close>

lemma mip_model_progress:
  assumes run: "mip_model (new_object gpm net iv ov) = (r, self')"
  shows "\<exists>k. map layer_name (self_layers self') =
             map fst (filter (\<lambda>is. supported (snd is)) (enumerate 0 (take k net))) \<and>
           (\<forall>L\<in>set (self_layers self'). layer_ok (length net) ov None None net L) \<and>
           chained iv (self_layers self') \<and>
           (case r of
              Inr u \<Rightarrow> k = length net \<and>
                (case ov of
                   Some out \<Rightarrow> self_output self' = Some out
                 | None \<Rightarrow> self_layers self' \<noteq> [] \<and>
                     self_output self' = Some (layer_output (last (self_layers self'))))
            | Inl e \<Rightarrow> unbound_at None None net k e \<or>
                (e = UnboundLocalError ''layer'' \<and> k = length net \<and>
                 self_layers self' = [] \<and> ov = None))"
proof -
  let ?l0 = "\<lparr>l_input = iv, l_output = None, l_layer_weight = None,
        l_layer_bias = None, l_layer = None\<rparr>"
  from mip_model_run [OF run] have "\<exists>r1 s1.
    mip_loop (length net) (enumerate 0 net) ?l0 (new_object gpm net iv ov) = (r1, s1) \<and>
    self_layers self' = self_layers s1 \<and>
    (case r1 of
       Inl e \<Rightarrow> r = Inl e \<and> self' = s1
     | Inr l' \<Rightarrow>
         (if self_output s1 = None
          then (case l_layer l' of
                  None \<Rightarrow> r = Inl (UnboundLocalError ''layer'') \<and> self' = s1
                | Some layer \<Rightarrow>
                    r = Inr () \<and> self' = s1\<lparr>self_output := Some (layer_output layer)\<rparr>)
          else r = Inr () \<and> self' = s1))"
    by (simp only: new_object_fields)
  then obtain r1 s1 where
    loop: "mip_loop (length net) (enumerate 0 net) ?l0 (new_object gpm net iv ov) = (r1, s1)"
    and lay: "self_layers self' = self_layers s1"
    and fin: "case r1 of
       Inl e \<Rightarrow> r = Inl e \<and> self' = s1
     | Inr l' \<Rightarrow>
         (if self_output s1 = None
          then (case l_layer l' of
                  None \<Rightarrow> r = Inl (UnboundLocalError ''layer'') \<and> self' = s1
                | Some layer \<Rightarrow>
                    r = Inr () \<and> self' = s1\<lparr>self_output := Some (layer_output layer)\<rparr>)
          else r = Inr () \<and> self' = s1)"
    by blast
  from mip_loop_frame [OF loop] have out: "self_output s1 = ov" by (simp add: new_object_fields)
  have "length net \<le> length net" "l_output ?l0 = None" by simp_all
  from mip_loop_progress [OF loop this] obtain new k where
    m1: "self_layers s1 = self_layers (new_object gpm net iv ov) @ new"
    and m2: "map layer_name new =
      map fst (filter (\<lambda>is. supported (snd is)) (enumerate 0 (take k net)))"
    and m3: "\<forall>L\<in>set new. layer_ok (length net) (self_output (new_object gpm net iv ov))
        (l_layer_weight ?l0) (l_layer_bias ?l0) net L"
    and m4: "chained (l_input ?l0) new"
    and m5: "case r1 of
          Inr l' \<Rightarrow> k = length net \<and>
            l_layer l' = (if new = [] then l_layer ?l0 else Some (last new)) \<and>
            l_input l' = (if new = [] then l_input ?l0 else layer_output (last new))
        | Inl e \<Rightarrow> unbound_at (l_layer_weight ?l0) (l_layer_bias ?l0) net k e"
    by blast
  from m1 lay have new: "self_layers self' = new" by (simp add: new_object_fields)
  from m2 new have n2: "map layer_name (self_layers self') =
      map fst (filter (\<lambda>is. supported (snd is)) (enumerate 0 (take k net)))" by simp
  from m3 new have n3: "\<forall>L\<in>set (self_layers self'). layer_ok (length net) ov None None net L"
    by (simp add: new_object_fields)
  from m4 new have n4: "chained iv (self_layers self')" by simp
  from m5 new have n5: "case r1 of
          Inr l' \<Rightarrow> k = length net \<and>
            l_layer l' = (if self_layers self' = [] then None else Some (last (self_layers self')))
        | Inl e \<Rightarrow> unbound_at None None net k e"
    by (cases r1) simp_all
  have "case r of
              Inr u \<Rightarrow> k = length net \<and>
                (case ov of
                   Some out \<Rightarrow> self_output self' = Some out
                 | None \<Rightarrow> self_layers self' \<noteq> [] \<and>
                     self_output self' = Some (layer_output (last (self_layers self'))))
            | Inl e \<Rightarrow> unbound_at None None net k e \<or>
                (e = UnboundLocalError ''layer'' \<and> k = length net \<and>
                 self_layers self' = [] \<and> ov = None)"
  proof (cases r1)
    case (Inl e)
    with fin n5 show ?thesis by simp
  next
    case (Inr l')
    with n5 have k: "k = length net"
      and ll: "l_layer l' = (if self_layers self' = [] then None else Some (last (self_layers self')))"
      by simp_all
    show ?thesis
    proof (cases ov)
      case (Some v)
      with fin Inr out k show ?thesis by simp
    next
      case None
      from ll lay have ll1: "l_layer l' =
          (if self_layers s1 = [] then None else Some (last (self_layers s1)))" by simp
      show ?thesis
      proof (cases "self_layers s1 = []")
        case True
        with fin Inr out None ll1 have "r = Inl (UnboundLocalError ''layer'')" by simp
        with True lay k None show ?thesis by simp
      next
        case False
        with fin Inr out None ll1 have "r = Inr ()"
          "self_output self' = Some (layer_output (last (self_layers s1)))" by simp_all
        with False lay k None show ?thesis by simp
      qed
    qed
  qed
  with n2 n3 n4 show ?thesis by blast
qed

lemma names_last_supported:
  assumes names: "map layer_name Ls =
      map fst (filter (\<lambda>is. supported (snd is)) (enumerate 0 net))"
    and ne: "net \<noteq> []" and sup: "supported (last net)"
  shows "Ls \<noteq> [] \<and> layer_name (last Ls) = length net - 1"
proof -
  from ne have net: "net = butlast net @ [last net]" by simp
  have "enumerate 0 net = enumerate 0 (butlast net) @ [(length (butlast net), last net)]"
    by (subst net) (simp add: enumerate_append_eq)
  with sup names have eq: "map layer_name Ls =
      map fst (filter (\<lambda>is. supported (snd is)) (enumerate 0 (butlast net))) @ [length net - 1]"
    by simp
  then have ne': "Ls \<noteq> []" by auto
  from eq have "last (map layer_name Ls) = length net - 1" by simp
  with ne' show ?thesis by (simp add: last_map)
qed

section \<open>The claims\<close>

text \<open>
  Claim C3. The embedding pass makes the steps of the network in order and builds one
  layer embedding for each \<^verbatim>\<open>nn.Linear\<close> and each \<^verbatim>\<open>nn.ReLU\<close> it makes. The output
  array handed to the encoder is \<^verbatim>\<open>None\<close> for every step but the last one of the
  network, and for the last one it is the caller's output array (\<^verbatim>\<open>None\<close> when the
  caller gave none); an array handed to the encoder is the output of the layer it builds.
  When the pass ends it has made every step; the output of the object is the caller's
  array when one was given, and otherwise at least one layer was built and the output of
  the object is the output array of the last layer built. When the pass raises, it is at
  an \<^verbatim>\<open>nn.Linear\<close> where a local is read unbound, or after the loop for the local
  \<^verbatim>\<open>layer\<close>.
\<close>

theorem C3_outputs_passed_to_encoders:
  assumes "mip_model (new_object gpm net iv ov) = (r, self')"
  shows "\<exists>k. map layer_name (self_layers self') =
             map fst (filter (\<lambda>is. supported (snd is)) (enumerate 0 (take k net))) \<and>
           (\<forall>L\<in>set (self_layers self').
              activation_vars L = (if Suc (layer_name L) = length net then ov else None) \<and>
              (case activation_vars L of None \<Rightarrow> True | Some out \<Rightarrow> layer_output L = out)) \<and>
           (case r of
              Inr u \<Rightarrow> k = length net \<and>
                (case ov of
                   Some out \<Rightarrow> self_output self' = Some out
                 | None \<Rightarrow> self_layers self' \<noteq> [] \<and>
                     self_output self' = Some (layer_output (last (self_layers self')))) \<and>
                (net \<noteq> [] \<and> supported (last net) \<longrightarrow>
                   self_layers self' \<noteq> [] \<and>
                   layer_name (last (self_layers self')) = length net - 1 \<and>
                   activation_vars (last (self_layers self')) = ov)
            | Inl e \<Rightarrow> unbound_at None None net k e \<or>
                (e = UnboundLocalError ''layer'' \<and> k = length net \<and>
                 self_layers self' = [] \<and> ov = None))"
proof -
  from mip_model_progress [OF assms] obtain k where
    names: "map layer_name (self_layers self') =
             map fst (filter (\<lambda>is. supported (snd is)) (enumerate 0 (take k net)))"
    and ok: "\<forall>L\<in>set (self_layers self'). layer_ok (length net) ov None None net L"
    and fin: "case r of
              Inr u \<Rightarrow> k = length net \<and>
                (case ov of
                   Some out \<Rightarrow> self_output self' = Some out
                 | None \<Rightarrow> self_layers self' \<noteq> [] \<and>
                     self_output self' = Some (layer_output (last (self_layers self'))))
            | Inl e \<Rightarrow> unbound_at None None net k e \<or>
                (e = UnboundLocalError ''layer'' \<and> k = length net \<and>
                 self_layers self' = [] \<and> ov = None)"
    by blast
  from ok have av: "\<forall>L\<in>set (self_layers self').
              activation_vars L = (if Suc (layer_name L) = length net then ov else None) \<and>
              (case activation_vars L of None \<Rightarrow> True | Some out \<Rightarrow> layer_output L = out)"
    unfolding layer_ok_def by blast
  have "case r of
              Inr u \<Rightarrow> k = length net \<and>
                (case ov of
                   Some out \<Rightarrow> self_output self' = Some out
                 | None \<Rightarrow> self_layers self' \<noteq> [] \<and>
                     self_output self' = Some (layer_output (last (self_layers self')))) \<and>
                (net \<noteq> [] \<and> supported (last net) \<longrightarrow>
                   self_layers self' \<noteq> [] \<and>
                   layer_name (last (self_layers self')) = length net - 1 \<and>
                   activation_vars (last (self_layers self')) = ov)
            | Inl e \<Rightarrow> unbound_at None None net k e \<or>
                (e = UnboundLocalError ''layer'' \<and> k = length net \<and>
                 self_layers self' = [] \<and> ov = None)"
  proof (cases r)
    case (Inl e)
    with fin show ?thesis by simp
  next
    case (Inr u)
    with fin have k: "k = length net" by simp
    have "net \<noteq> [] \<and> supported (last net) \<longrightarrow>
                   self_layers self' \<noteq> [] \<and>
                   layer_name (last (self_layers self')) = length net - 1 \<and>
                   activation_vars (last (self_layers self')) = ov"
    proof
      assume a: "net \<noteq> [] \<and> supported (last net)"
      from names k have "map layer_name (self_layers self') =
          map fst (filter (\<lambda>is. supported (snd is)) (enumerate 0 net))" by simp
      from names_last_supported [OF this] a have l: "self_layers self' \<noteq> []"
        "layer_name (last (self_layers self')) = length net - 1" by simp_all
      from l(1) have "last (self_layers self') \<in> set (self_layers self')" by simp
      with av l(2) a have "activation_vars (last (self_layers self')) = ov" by auto
      with l show "self_layers self' \<noteq> [] \<and>
                   layer_name (last (self_layers self')) = length net - 1 \<and>
                   activation_vars (last (self_layers self')) = ov" by simp
    qed
    with fin Inr show ?thesis by simp
  qed
  with names av show ?thesis by blast
qed

theorem C3_witness:
  "fst (mip_model (new_object \<lparr>num_vars = 3, constrs = [], solution = None\<rparr>
          [Linear (Some [[1, 2]]) (Some [7]), ReLU] [[0, 1]] (Some [[2]]))) = Inr () \<and>
   map layer_name (self_layers (snd (mip_model
          (new_object \<lparr>num_vars = 3, constrs = [], solution = None\<rparr>
          [Linear (Some [[1, 2]]) (Some [7]), ReLU] [[0, 1]] (Some [[2]]))))) = [0, 1] \<and>
   map activation_vars (self_layers (snd (mip_model
          (new_object \<lparr>num_vars = 3, constrs = [], solution = None\<rparr>
          [Linear (Some [[1, 2]]) (Some [7]), ReLU] [[0, 1]] (Some [[2]]))))) =
     [None, Some [[2]]] \<and>
   map layer_output (self_layers (snd (mip_model
          (new_object \<lparr>num_vars = 3, constrs = [], solution = None\<rparr>
          [Linear (Some [[1, 2]]) (Some [7]), ReLU] [[0, 1]] (Some [[2]]))))) =
     [[[3]], [[2]]] \<and>
   self_output (snd (mip_model (new_object \<lparr>num_vars = 3, constrs = [], solution = None\<rparr>
          [Linear (Some [[1, 2]]) (Some [7]), ReLU] [[0, 1]] (Some [[2]])))) = Some [[2]]"
proof -
  let ?net = "[Linear (Some [[1, 2]]) (Some [7]), ReLU]"
  let ?X = "mip_model (new_object \<lparr>num_vars = 3, constrs = [], solution = None\<rparr>
          ?net [[0, 1]] (Some [[2]]))"
  have f: "fst ?X = Inr ()" by code_simp
  have sup: "?net \<noteq> [] \<and> supported (last ?net)" by (simp add: supported_def)
  from C3_outputs_passed_to_encoders [OF prod.collapse [symmetric], of
      "\<lparr>num_vars = 3, constrs = [], solution = None\<rparr>" ?net "[[0, 1]]" "Some [[2]]"]
  obtain k where
    names: "map layer_name (self_layers (snd ?X)) =
       map fst (filter (\<lambda>is. supported (snd is)) (enumerate 0 (take k ?net)))"
    and fin: "case fst ?X of
              Inr u \<Rightarrow> k = length ?net \<and>
                (case Some [[2]] of
                   Some out \<Rightarrow> self_output (snd ?X) = Some out
                 | None \<Rightarrow> self_layers (snd ?X) \<noteq> [] \<and>
                     self_output (snd ?X) = Some (layer_output (last (self_layers (snd ?X))))) \<and>
                (?net \<noteq> [] \<and> supported (last ?net) \<longrightarrow>
                   self_layers (snd ?X) \<noteq> [] \<and>
                   layer_name (last (self_layers (snd ?X))) = length ?net - 1 \<and>
                   activation_vars (last (self_layers (snd ?X))) = Some [[2]])
            | Inl e \<Rightarrow> unbound_at None None ?net k e \<or>
                (e = UnboundLocalError ''layer'' \<and> k = length ?net \<and>
                 self_layers (snd ?X) = [] \<and> Some [[2]] = (None :: var_array option))"
    by blast
  from fin f have k: "k = length ?net" and so: "self_output (snd ?X) = Some [[2]]"
    by simp_all
  from names k have n: "map layer_name (self_layers (snd ?X)) = [0, 1]"
    by (simp add: supported_def enumerate_eq_zip upt_rec)
  have a: "map activation_vars (self_layers (snd ?X)) = [None, Some [[2]]]" by code_simp
  have o: "map layer_output (self_layers (snd ?X)) = [[[3]], [[2]]]" by code_simp
  from f n a o so show ?thesis by blast
qed

lemma validate_find:
  "validate p xs =
     (case find (\<lambda>s. \<not> isinstance_ReLU s \<and> \<not> isinstance_Linear s) xs of
        None \<Rightarrow> Inr ()
      | Some bad \<Rightarrow> Inl (NoModel p (''Unsupported layer '' @ type_name bad)))"
  by (induction xs) auto

text \<open>
  Claim C1. When some step of the network is neither an \<^verbatim>\<open>nn.Linear\<close> nor an
  \<^verbatim>\<open>nn.ReLU\<close>, the construction raises \<^verbatim>\<open>NoModel\<close> with the message
  \<^verbatim>\<open>Unsupported layer\<close> followed by the class name of the first such step, and the
  solver model is the one the call was given: nothing was added to it.
\<close>

theorem C1_unsupported_layer_raises:
  assumes "step \<in> set predictor" "\<not> isinstance_ReLU step" "\<not> isinstance_Linear step"
  shows "\<exists>bad. find (\<lambda>s. \<not> isinstance_ReLU s \<and> \<not> isinstance_Linear s) predictor = Some bad \<and>
           add_sequential_constr gpm predictor input_vars output_vars =
             (Inl (NoModel predictor (''Unsupported layer '' @ type_name bad)), gpm)"
proof -
  from assms obtain bad where
    "find (\<lambda>s. \<not> isinstance_ReLU s \<and> \<not> isinstance_Linear s) predictor = Some bad"
    by (cases "find (\<lambda>s. \<not> isinstance_ReLU s \<and> \<not> isinstance_Linear s) predictor")
       (auto simp: find_None_iff)
  then show ?thesis
    by (simp add: add_sequential_constr_def SequentialConstr_init_def validate_find)
qed

theorem C1_witness:
  "add_sequential_constr \<lparr>num_vars = 2, constrs = [], solution = None\<rparr>
     [Linear (Some [[1, 2]]) (Some [7]), Other ''BatchNorm1d'', ReLU, Other ''Dropout''] [[0, 1]] None =
   (Inl (NoModel [Linear (Some [[1, 2]]) (Some [7]), Other ''BatchNorm1d'', ReLU, Other ''Dropout'']
          ''Unsupported layer BatchNorm1d''),
    \<lparr>num_vars = 2, constrs = [], solution = None\<rparr>)"
  using C1_unsupported_layer_raises [of "Other ''BatchNorm1d''"
      "[Linear (Some [[1, 2]]) (Some [7]), Other ''BatchNorm1d'', ReLU, Other ''Dropout'']"
      "\<lparr>num_vars = 2, constrs = [], solution = None\<rparr>" "[[0, 1]]" None]
  by simp

text \<open>
  Claim C10. The empty network passes the validation loop; when the caller gives no output
  array the construction then raises \<^verbatim>\<open>UnboundLocalError\<close> for the local
  \<^verbatim>\<open>layer\<close>, which no iteration has bound, and the solver model is unchanged.
\<close>

theorem C10_empty_network:
  "validate [] [] = Inr () \<and>
   mip_model (new_object gpm [] input_vars None) =
     (Inl (UnboundLocalError ''layer''), new_object gpm [] input_vars None) \<and>
   add_sequential_constr gpm [] input_vars None = (Inl (UnboundLocalError ''layer''), gpm)"
  by (simp add: add_sequential_constr_def SequentialConstr_init_def BaseNNConstr_init_def
      mip_model_def new_object_def)

text \<open>
  Claim C2 (the construction succeeds on every network of \<^verbatim>\<open>nn.Linear\<close> and
  \<^verbatim>\<open>nn.ReLU\<close> steps, with one chained layer embedding per step) does not hold of the
  code. The network of one \<^verbatim>\<open>nn.Linear\<close> built with \<^verbatim>\<open>bias=False\<close> passes the
  validation loop, and the embedding pass then raises \<^verbatim>\<open>UnboundLocalError\<close> for the
  local \<^verbatim>\<open>layer_bias\<close>. For the passes that end, lemma \<open>mip_model_progress\<close> above
  gives one layer embedding per supported step and the chaining.
\<close>

theorem C2_bias_free_linear_fails:
  "validate [Linear (Some [[1, 2]]) None] [Linear (Some [[1, 2]]) None] = Inr () \<and>
   fst (mip_model (new_object \<lparr>num_vars = 2, constrs = [], solution = None\<rparr>
          [Linear (Some [[1, 2]]) None] [[0, 1]] None)) = Inl (UnboundLocalError ''layer_bias'') \<and>
   add_sequential_constr \<lparr>num_vars = 2, constrs = [], solution = None\<rparr>
     [Linear (Some [[1, 2]]) None] [[0, 1]] None =
   (Inl (UnboundLocalError ''layer_bias''), \<lparr>num_vars = 2, constrs = [], solution = None\<rparr>)"
  by (simp add: add_sequential_constr_def SequentialConstr_init_def BaseNNConstr_init_def
      mip_model_def new_object_def mip_step_Linear)

lemma has_solution_iff:
  "fst (has_solution self) =
     (solution (self_gp_model self) \<noteq> None \<and> self_output self \<noteq> None)"
  by (auto simp: has_solution_def output_X_def mvar_X_def split: option.splits sum.splits)

lemma has_solution_snd: "snd (has_solution self) = self"
  by (simp add: has_solution_def split: sum.splits)

lemma get_error_solved:
  assumes "solution (self_gp_model self) = Some s" "self_output self = Some out"
  shows "get_error to_float forward self =
           (np_sub (forward (self_predictor self) (to_float (map (map s) (self_input self))))
              (map (map s) out), self)"
  using assms by (simp add: get_error_def has_solution_def output_X_def mvar_X_def Let_def)

lemma get_error_unsolved:
  assumes "\<not> fst (has_solution self)"
  shows "get_error to_float forward self = (Inl NoSolution, self)"
  using assms has_solution_snd [of self]
  by (cases "has_solution self") (simp add: get_error_def)

lemma np_sub_NoSolution: "np_sub A B \<noteq> Inl NoSolution"
  by (simp add: np_sub_def)

text \<open>
  Claim C4. \<^verbatim>\<open>get_error\<close> raises \<^verbatim>\<open>NoSolution\<close> exactly when
  \<^verbatim>\<open>_has_solution\<close> is false, that is when the solver model holds no solution (or the
  object has no output array). When a solution is held and the array computed by the
  network has the shape of the output values, it returns a value.
\<close>

theorem C4_NoSolution_iff:
  "(fst (get_error to_float forward self) = Inl NoSolution) = (\<not> fst (has_solution self)) \<and>
   fst (has_solution self) =
     (solution (self_gp_model self) \<noteq> None \<and> self_output self \<noteq> None) \<and>
   (\<forall>s out. solution (self_gp_model self) = Some s \<longrightarrow> self_output self = Some out \<longrightarrow>
      map length (forward (self_predictor self) (to_float (map (map s) (self_input self)))) =
        map length (map (map s) out) \<longrightarrow>
      (\<exists>res. fst (get_error to_float forward self) = Inr res))"
proof (cases "fst (has_solution self)")
  case False
  then show ?thesis by (auto simp: get_error_unsolved has_solution_iff)
next
  case True
  then obtain s out where so: "solution (self_gp_model self) = Some s" "self_output self = Some out"
    by (auto simp: has_solution_iff)
  with True show ?thesis
    by (simp add: has_solution_iff get_error_solved [OF so] np_sub_def)
qed

theorem C4_witness:
  "fst (get_error (\<lambda>x. x) (\<lambda>net x. [[5]])
     \<lparr>self_gp_model = \<lparr>num_vars = 2, constrs = [], solution = None\<rparr>,
      self_predictor = [ReLU], self_input = [[0]], self_output = Some [[1]],
      self_layers = []\<rparr>) = Inl NoSolution \<and>
   fst (get_error (\<lambda>x. x) (\<lambda>net x. [[5]])
     \<lparr>self_gp_model = \<lparr>num_vars = 2, constrs = [], solution = Some (\<lambda>v. 3)\<rparr>,
      self_predictor = [ReLU], self_input = [[0]], self_output = Some [[1]],
      self_layers = []\<rparr>) = Inr [[2]]"
  using C4_NoSolution_iff [of "\<lambda>x. x" "\<lambda>net x. [[5]]"
     "\<lparr>self_gp_model = \<lparr>num_vars = 2, constrs = [], solution = None\<rparr>,
      self_predictor = [ReLU], self_input = [[0]], self_output = Some [[1]],
      self_layers = []\<rparr>"]
    C4_NoSolution_iff [of "\<lambda>x. x" "\<lambda>net x. [[5]]"
     "\<lparr>self_gp_model = \<lparr>num_vars = 2, constrs = [], solution = Some (\<lambda>v. 3)\<rparr>,
      self_predictor = [ReLU], self_input = [[0]], self_output = Some [[1]],
      self_layers = []\<rparr>"]
  by (simp add: get_error_def has_solution_def output_X_def mvar_X_def np_sub_def)

text \<open>
  Claim C7. \<^verbatim>\<open>get_error\<close> leaves the object, and with it the solver model, its
  variables and its constraints, as they were, whether it returns or raises.
\<close>

theorem C7_get_error_frame:
  "snd (get_error to_float forward self) = self"
  by (cases "has_solution self")
     (auto simp: get_error_def has_solution_def Let_def split: sum.splits if_splits)

lemma np_sub_same_shape:
  assumes "map length A = map length B"
  shows "\<exists>res. np_sub A B = Inr res \<and> map length res = map length B \<and>
           (\<forall>i < length res. \<forall>j < length (res ! i). res ! i ! j = A ! i ! j - B ! i ! j)"
proof -
  let ?res = "map (\<lambda>(ra, rb). map (\<lambda>(a, b). a - b) (zip ra rb)) (zip A B)"
  from assms have len: "length A = length B" by (metis length_map)
  have row: "length (A ! i) = length (B ! i)" if "i < length B" for i
    using that assms len by (metis nth_map)
  have "map length ?res = map length B"
    using len row by (auto intro!: nth_equalityI)
  moreover have "\<forall>i < length ?res. \<forall>j < length (?res ! i). ?res ! i ! j = A ! i ! j - B ! i ! j"
    using len row by auto
  moreover from assms have "np_sub A B = Inr ?res" by (simp add: np_sub_def)
  ultimately show ?thesis by blast
qed

lemma np_sub_self: "np_sub A A = Inr (map (map (\<lambda>v. 0)) A)"
  by (auto simp: np_sub_def zip_same_conv_map)

text \<open>
  Claim C5. With a solution, \<^verbatim>\<open>get_error\<close> reads the values of the input variables,
  evaluates the network on them (converted to single precision) and subtracts the values
  of the output variables: when the two arrays have the same shape the result has that
  shape and each entry is the difference of the entries; when the output values are
  exactly the array the network computes, the result is the zero array of that shape.
\<close>

theorem C5_get_error_difference:
  assumes "fst (has_solution self)"
  shows "\<exists>input_X out_X t_out.
     mvar_X (self_gp_model self) (self_input self) = Inr input_X \<and>
     output_X self = Inr out_X \<and>
     t_out = forward (self_predictor self) (to_float input_X) \<and>
     fst (get_error to_float forward self) = np_sub t_out out_X \<and>
     (map length t_out = map length out_X \<longrightarrow>
        (\<exists>res. fst (get_error to_float forward self) = Inr res \<and>
           map length res = map length out_X \<and>
           (\<forall>i < length res. \<forall>j < length (res ! i).
              res ! i ! j = t_out ! i ! j - out_X ! i ! j))) \<and>
     (out_X = t_out \<longrightarrow>
        fst (get_error to_float forward self) = Inr (map (map (\<lambda>v. 0)) out_X))"
proof -
  from assms obtain s out where
    so: "solution (self_gp_model self) = Some s" "self_output self = Some out"
    by (auto simp: has_solution_iff)
  let ?input_X = "map (map s) (self_input self)"
  let ?out_X = "map (map s) out"
  let ?t_out = "forward (self_predictor self) (to_float ?input_X)"
  have 1: "mvar_X (self_gp_model self) (self_input self) = Inr ?input_X"
    and 2: "output_X self = Inr ?out_X"
    using so by (simp_all add: mvar_X_def output_X_def)
  have 3: "fst (get_error to_float forward self) = np_sub ?t_out ?out_X"
    by (simp add: get_error_solved [OF so])
  have 4: "map length ?t_out = map length ?out_X \<longrightarrow>
        (\<exists>res. fst (get_error to_float forward self) = Inr res \<and>
           map length res = map length ?out_X \<and>
           (\<forall>i < length res. \<forall>j < length (res ! i).
              res ! i ! j = ?t_out ! i ! j - ?out_X ! i ! j))"
    unfolding 3 using np_sub_same_shape [of ?t_out ?out_X] by blast
  have 5: "?out_X = ?t_out \<longrightarrow>
        fst (get_error to_float forward self) = Inr (map (map (\<lambda>v. 0)) ?out_X)"
  proof
    assume e: "?out_X = ?t_out"
    show "fst (get_error to_float forward self) = Inr (map (map (\<lambda>v. 0)) ?out_X)"
      by (simp only: 3 e [symmetric] np_sub_self)
  qed
  from 1 2 3 4 5 show ?thesis by blast
qed

theorem C5_witness:
  "fst (has_solution
     \<lparr>self_gp_model = \<lparr>num_vars = 2, constrs = [], solution = Some (\<lambda>v. if v = 0 then - 4 else 0)\<rparr>,
      self_predictor = [ReLU], self_input = [[0]], self_output = Some [[1]],
      self_layers = []\<rparr>) \<and>
   fst (get_error (\<lambda>x. x) (\<lambda>net x. map (map (max 0)) x)
     \<lparr>self_gp_model = \<lparr>num_vars = 2, constrs = [], solution = Some (\<lambda>v. if v = 0 then - 4 else 0)\<rparr>,
      self_predictor = [ReLU], self_input = [[0]], self_output = Some [[1]],
      self_layers = []\<rparr>) = Inr [[0]]"
  using C5_get_error_difference [of
     "\<lparr>self_gp_model = \<lparr>num_vars = 2, constrs = [], solution = Some (\<lambda>v. if v = 0 then - 4 else 0)\<rparr>,
      self_predictor = [ReLU], self_input = [[0]], self_output = Some [[1]],
      self_layers = []\<rparr>" "\<lambda>net x. map (map (max 0)) x" "\<lambda>x. x"]
  by (simp add: has_solution_def output_X_def mvar_X_def np_sub_def)

subsection \<open>The arguments of the dense encoder\<close>

lemma last_weight_snoc_weight:
  "last_weight acc (xs @ [Linear (Some W) b]) = Some (transpose W)"
  by (simp add: last_weight_append)

lemma last_bias_snoc_bias:
  "last_bias acc (xs @ [Linear W (Some b)]) = Some b"
  by (simp add: last_bias_append)

lemma last_bias_snoc_nobias:
  "last_bias acc (xs @ [Linear W None]) = last_bias acc xs"
  by (simp add: last_bias_append)

text \<open>
  A layer embedding built for an \<^verbatim>\<open>nn.Linear\<close> is a dense layer with the identity
  activation; the weight is the transpose of the layer's own when it has a parameter
  named \<^verbatim>\<open>weight\<close>, the bias is the layer's own when it has one, and otherwise it is
  what the local still holds from the steps before.
\<close>

lemma mip_model_dense_arguments:
  assumes run: "mip_model (new_object gpm net iv ov) = (r, self')"
    and L: "L \<in> set (self_layers self')"
    and st: "net ! layer_name L = Linear Wo bo"
  shows "\<exists>w v. layer_params L = DenseLayer w v \<and> layer_activation L = Identity \<and>
           layer_name L < length net \<and>
           last_weight None (take (Suc (layer_name L)) net) = Some w \<and>
           last_bias None (take (Suc (layer_name L)) net) = Some v \<and>
           (\<forall>W. Wo = Some W \<longrightarrow> w = transpose W) \<and> (\<forall>b. bo = Some b \<longrightarrow> v = b)"
proof -
  from mip_model_progress [OF run] L have ok: "layer_ok (length net) ov None None net L"
    by blast
  then have lt: "layer_name L < length net" by (simp add: layer_ok_def)
  from ok st obtain w v where wv: "layer_params L = DenseLayer w v"
    "layer_activation L = Identity"
    "last_weight None (take (Suc (layer_name L)) net) = Some w"
    "last_bias None (take (Suc (layer_name L)) net) = Some v"
    by (auto simp: layer_ok_def split: option.splits)
  from lt st have tk: "take (Suc (layer_name L)) net = take (layer_name L) net @ [Linear Wo bo]"
    by (simp add: take_Suc_conv_app_nth)
  have "\<forall>W. Wo = Some W \<longrightarrow> w = transpose W"
    using wv(3) unfolding tk by (auto simp: last_weight_snoc_weight)
  moreover have "\<forall>b. bo = Some b \<longrightarrow> v = b"
    using wv(4) unfolding tk by (auto simp: last_bias_snoc_bias)
  ultimately show ?thesis using wv lt by blast
qed

text \<open>
  Claim C6 (for every \<^verbatim>\<open>nn.Linear\<close> the dense encoder is handed the transpose of the
  layer's weight and the layer's bias unchanged) does not hold of the code for a layer
  without bias. In the network of an \<^verbatim>\<open>nn.Linear\<close> with bias \<open>[7]\<close>, an
  \<^verbatim>\<open>nn.ReLU\<close> and an \<^verbatim>\<open>nn.Linear\<close> built with \<^verbatim>\<open>bias=False\<close>, the construction
  succeeds and the encoder of the last layer is handed the bias \<open>[7]\<close> of the first
  one. Lemma \<open>mip_model_dense_arguments\<close> above gives what holds of every dense layer.
\<close>

theorem C6_stale_bias:
  "validate [Linear (Some [[1, 2]]) (Some [7]), ReLU, Linear (Some [[3]]) None]
     [Linear (Some [[1, 2]]) (Some [7]), ReLU, Linear (Some [[3]]) None] = Inr () \<and>
   (case fst (add_sequential_constr \<lparr>num_vars = 2, constrs = [], solution = None\<rparr>
       [Linear (Some [[1, 2]]) (Some [7]), ReLU, Linear (Some [[3]]) None] [[0, 1]] None) of
      Inl e \<Rightarrow> False
    | Inr self \<Rightarrow>
        map layer_params (self_layers self) =
          [DenseLayer [[1], [2]] [7], ActivationLayer, DenseLayer [[3]] [7]])"
  by code_simp

subsection \<open>The two passes\<close>

lemma validate_supported:
  "(validate p xs = Inr ()) = (\<forall>s\<in>set xs. supported s)"
  by (induction xs) (auto simp: supported_def)

lemma mip_step_not_skipped:
  assumes "supported step"
  shows "self_layers (snd (mip_step n (i, step) l self)) \<noteq> self_layers self \<or>
         (\<exists>e. fst (mip_step n (i, step) l self) = Inl e)"
proof (cases step)
  case (Linear W b)
  then show ?thesis
    by (auto simp: mip_step_Linear Let_def add_dense_layer_self split: option.splits)
next
  case ReLU
  then show ?thesis by (simp add: mip_step_ReLU Let_def add_activation_layer_self)
next
  case (Other c)
  with assms show ?thesis by (simp add: supported_def)
qed

text \<open>
  The validation loop accepts a step exactly when it is an \<^verbatim>\<open>nn.ReLU\<close> or an
  \<^verbatim>\<open>nn.Linear\<close>, and the body of the embedding loop passes over a step without
  raising and without touching the object exactly when the step is neither.
\<close>

lemma passes_agree_on_kinds:
  "(validate p [step] = Inr ()) = (isinstance_ReLU step \<or> isinstance_Linear step)"
  "(mip_step n (i, step) l self =
      (Inr (if int i = int n - 1 then l\<lparr>l_output := self_output self\<rparr> else l), self)) =
     (\<not> (isinstance_ReLU step \<or> isinstance_Linear step))"
proof -
  show "(validate p [step] = Inr ()) = (isinstance_ReLU step \<or> isinstance_Linear step)"
    by simp
  show "(mip_step n (i, step) l self =
      (Inr (if int i = int n - 1 then l\<lparr>l_output := self_output self\<rparr> else l), self)) =
     (\<not> (isinstance_ReLU step \<or> isinstance_Linear step))"
  proof (cases "isinstance_ReLU step \<or> isinstance_Linear step")
    case True
    then have "supported step" by (simp add: supported_def)
    from mip_step_not_skipped [OF this, of n i l self] True show ?thesis by auto
  next
    case False
    then obtain c where "step = Other c" by (cases step) auto
    with False show ?thesis by (simp add: mip_step_Other set_output_def)
  qed
qed

text \<open>
  Claim C8 (the two passes agree on the legal layers, so that the embedding pass encodes
  every layer of a network that passes validation) does not hold of the code. The network
  of an \<^verbatim>\<open>nn.Linear\<close> built with \<^verbatim>\<open>bias=False\<close> and an \<^verbatim>\<open>nn.ReLU\<close> passes the
  validation loop, and the embedding pass raises \<^verbatim>\<open>UnboundLocalError\<close> at its first
  step and encodes no layer. Lemma \<open>passes_agree_on_kinds\<close> above gives the agreement on
  the kinds of layers, and lemma \<open>mip_model_progress\<close> that no step is passed over in
  silence.
\<close>

theorem C8_validated_not_encoded:
  "validate [Linear (Some [[1, 2]]) None, ReLU] [Linear (Some [[1, 2]]) None, ReLU] = Inr () \<and>
   fst (mip_model (new_object \<lparr>num_vars = 2, constrs = [], solution = None\<rparr>
          [Linear (Some [[1, 2]]) None, ReLU] [[0, 1]] None)) =
     Inl (UnboundLocalError ''layer_bias'') \<and>
   self_layers (snd (mip_model (new_object \<lparr>num_vars = 2, constrs = [], solution = None\<rparr>
          [Linear (Some [[1, 2]]) None, ReLU] [[0, 1]] None))) = [] \<and>
   fst (add_sequential_constr \<lparr>num_vars = 2, constrs = [], solution = None\<rparr>
          [Linear (Some [[1, 2]]) None, ReLU] [[0, 1]] None) =
     Inl (UnboundLocalError ''layer_bias'')"
  by (simp add: add_sequential_constr_def SequentialConstr_init_def BaseNNConstr_init_def
      mip_model_def new_object_def mip_step_Linear)

subsection \<open>A layer without bias\<close>

lemma mip_loop_no_linear:
  "\<forall>s\<in>set xs. \<not> isinstance_Linear s \<Longrightarrow>
     \<exists>l' s'. mip_loop n (enumerate k xs) l self = (Inr l', s') \<and>
            l_layer_weight l' = l_layer_weight l \<and> l_layer_bias l' = l_layer_bias l"
proof (induction xs arbitrary: k l self)
  case Nil
  then show ?case by simp
next
  case (Cons s xs)
  from Cons.prems have rest: "\<forall>s\<in>set xs. \<not> isinstance_Linear s" by simp
  from Cons.prems have "\<not> isinstance_Linear s" by simp
  then have "\<exists>l1 s1. mip_step n (k, s) l self = (Inr l1, s1) \<and>
      l_layer_weight l1 = l_layer_weight l \<and> l_layer_bias l1 = l_layer_bias l"
    by (cases s) (simp_all add: mip_step_ReLU mip_step_Other Let_def set_output_fields)
  then obtain l1 s1 where st: "mip_step n (k, s) l self = (Inr l1, s1)"
    and b1: "l_layer_weight l1 = l_layer_weight l" "l_layer_bias l1 = l_layer_bias l" by blast
  from Cons.IH [OF rest, of "Suc k" l1 s1] obtain l' s' where
    "mip_loop n (enumerate (Suc k) xs) l1 s1 = (Inr l', s')"
    "l_layer_weight l' = l_layer_weight l1" "l_layer_bias l' = l_layer_bias l1"
    by blast
  with st b1 show ?case by simp
qed

lemma mip_model_first_linear_no_bias:
  assumes "\<forall>s\<in>set pre. \<not> isinstance_Linear s"
  shows "fst (mip_model (new_object gpm (pre @ Linear Wo None # post) iv ov)) =
           Inl (UnboundLocalError
                  (case Wo of None \<Rightarrow> ''layer_weight'' | Some W \<Rightarrow> ''layer_bias''))"
proof -
  let ?net = "pre @ Linear Wo None # post"
  let ?l0 = "\<lparr>l_input = iv, l_output = None, l_layer_weight = None,
        l_layer_bias = None, l_layer = None\<rparr>"
  let ?self = "new_object gpm ?net iv ov"
  let ?e = "UnboundLocalError (case Wo of None \<Rightarrow> ''layer_weight'' | Some W \<Rightarrow> ''layer_bias'')"
  from mip_loop_no_linear [OF assms, of "length ?net" 0 ?l0 ?self] obtain l1 s1 where
    pre: "mip_loop (length ?net) (enumerate 0 pre) ?l0 ?self = (Inr l1, s1)"
    and b: "l_layer_weight l1 = None" "l_layer_bias l1 = None" by auto
  have en: "enumerate 0 ?net =
      enumerate 0 pre @ (length pre, Linear Wo None) # enumerate (Suc (length pre)) post"
    by (simp add: enumerate_append_eq)
  from b have "mip_step (length ?net) (length pre, Linear Wo None) l1 s1 = (Inl ?e, s1)"
    by (cases Wo) (simp_all add: mip_step_Linear)
  with pre have "mip_loop (length ?net) (enumerate 0 ?net) ?l0 ?self = (Inl ?e, s1)"
    unfolding en by (simp add: mip_loop_append)
  then show ?thesis
    by (simp add: mip_model_def new_object_fields Let_def)
qed

lemma last_bias_single_nobias:
  assumes "\<not> (\<exists>W v. s = Linear W (Some v))"
  shows "last_bias acc [s] = acc"
proof (cases s)
  case (Linear W b)
  with assms have "b = None" by (cases b) simp_all
  with Linear show ?thesis by simp
qed simp_all

lemma last_bias_SomeD:
  "last_bias None xs = Some b \<Longrightarrow>
     \<exists>j<length xs. (\<exists>W. xs ! j = Linear W (Some b)) \<and>
        (\<forall>k. j < k \<and> k < length xs \<longrightarrow> (\<forall>W' b'. xs ! k \<noteq> Linear W' (Some b')))"
proof (induction xs rule: rev_induct)
  case Nil
  then show ?case by simp
next
  case (snoc s xs)
  show ?case
  proof (cases "\<exists>W v. s = Linear W (Some v)")
    case True
    then obtain W v where s: "s = Linear W (Some v)" by blast
    with snoc.prems have "v = b" by (simp add: last_bias_append)
    with s have "(xs @ [s]) ! length xs = Linear W (Some b)" by simp
    then show ?thesis by (intro exI [of _ "length xs"]) auto
  next
    case False
    then have "last_bias (last_bias None xs) [s] = last_bias None xs"
      by (rule last_bias_single_nobias)
    with snoc.prems have "last_bias None xs = Some b" by (simp add: last_bias_append)
    from snoc.IH [OF this] obtain j where j: "j < length xs"
      "\<exists>W. xs ! j = Linear W (Some b)"
      "\<forall>k. j < k \<and> k < length xs \<longrightarrow> (\<forall>W' b'. xs ! k \<noteq> Linear W' (Some b'))" by blast
    have "\<forall>k. j < k \<and> k < length (xs @ [s]) \<longrightarrow> (\<forall>W' b'. (xs @ [s]) ! k \<noteq> Linear W' (Some b'))"
    proof (intro allI impI)
      fix k W' b'
      assume k: "j < k \<and> k < length (xs @ [s])"
      show "(xs @ [s]) ! k \<noteq> Linear W' (Some b')"
      proof (cases "k < length xs")
        case True
        with j(3) k show ?thesis by (simp add: nth_append)
      next
        case False
        with k have "k = length xs" by simp
        with False \<open>\<not> (\<exists>W v. s = Linear W (Some v))\<close> show ?thesis by simp
      qed
    qed
    with j(1,2) show ?thesis
      by (intro exI [of _ j]) (auto simp: nth_append)
  qed
qed

lemma mip_model_bias_reused:
  assumes run: "mip_model (new_object gpm net iv ov) = (r, self')"
    and L: "L \<in> set (self_layers self')"
    and nb: "net ! layer_name L = Linear Wo None"
  shows "\<exists>j W' b'. j < layer_name L \<and> net ! j = Linear W' (Some b') \<and>
           (\<forall>k. j < k \<and> k < layer_name L \<longrightarrow> (\<forall>W'' b''. net ! k \<noteq> Linear W'' (Some b''))) \<and>
           (\<exists>w. layer_params L = DenseLayer w b' \<and> (\<forall>W. Wo = Some W \<longrightarrow> w = transpose W))"
proof -
  from mip_model_dense_arguments [OF run L nb] obtain w v where wv:
    "layer_params L = DenseLayer w v" "layer_name L < length net"
    "last_bias None (take (Suc (layer_name L)) net) = Some v"
    "\<forall>W. Wo = Some W \<longrightarrow> w = transpose W" by blast
  from wv(2) nb have "take (Suc (layer_name L)) net = take (layer_name L) net @ [Linear Wo None]"
    by (simp add: take_Suc_conv_app_nth)
  with wv(3) have b': "last_bias None (take (layer_name L) net) = Some v"
    by (simp only: last_bias_snoc_nobias)
  from last_bias_SomeD [OF b'] wv(2) obtain j W' where j: "j < layer_name L"
    "take (layer_name L) net ! j = Linear W' (Some v)"
    "\<forall>k. j < k \<and> k < layer_name L \<longrightarrow>
       (\<forall>W'' b''. take (layer_name L) net ! k \<noteq> Linear W'' (Some b''))"
    by auto
  from j(1,2) have 1: "net ! j = Linear W' (Some v)" by simp
  from j(3) have 2: "\<forall>k. j < k \<and> k < layer_name L \<longrightarrow> (\<forall>W'' b''. net ! k \<noteq> Linear W'' (Some b''))"
    by auto
  from j(1) 1 2 wv(1,4) show ?thesis by blast
qed

text \<open>
  Claim C9. When the first \<^verbatim>\<open>nn.Linear\<close> of the network has no bias, the embedding
  pass raises \<^verbatim>\<open>UnboundLocalError\<close>: for the local \<^verbatim>\<open>layer_bias\<close> when the layer
  has a parameter named \<^verbatim>\<open>weight\<close>, and for \<^verbatim>\<open>layer_weight\<close>, read first, when it
  has none either. A layer embedding built for an \<^verbatim>\<open>nn.Linear\<close> without bias holds the
  bias of the closest earlier \<^verbatim>\<open>nn.Linear\<close> that has one, with the transpose of its own
  weight when it has one.
\<close>

theorem C9_bias_free_linear:
  "(\<forall>pre Wo post. net = pre @ Linear Wo None # post \<longrightarrow> (\<forall>s\<in>set pre. \<not> isinstance_Linear s) \<longrightarrow>
      fst (mip_model (new_object gpm net iv ov)) =
        Inl (UnboundLocalError
               (case Wo of None \<Rightarrow> ''layer_weight'' | Some W \<Rightarrow> ''layer_bias''))) \<and>
   (\<forall>r self' L Wo. mip_model (new_object gpm net iv ov) = (r, self') \<longrightarrow>
      L \<in> set (self_layers self') \<longrightarrow> net ! layer_name L = Linear Wo None \<longrightarrow>
      (\<exists>j W' b'. j < layer_name L \<and> net ! j = Linear W' (Some b') \<and>
           (\<forall>k. j < k \<and> k < layer_name L \<longrightarrow> (\<forall>W'' b''. net ! k \<noteq> Linear W'' (Some b''))) \<and>
           (\<exists>w. layer_params L = DenseLayer w b' \<and> (\<forall>W. Wo = Some W \<longrightarrow> w = transpose W))))"
proof (intro conjI allI impI)
  fix pre Wo post
  assume "net = pre @ Linear Wo None # post" "\<forall>s\<in>set pre. \<not> isinstance_Linear s"
  then show "fst (mip_model (new_object gpm net iv ov)) =
        Inl (UnboundLocalError
               (case Wo of None \<Rightarrow> ''layer_weight'' | Some W \<Rightarrow> ''layer_bias''))"
    by (simp only: mip_model_first_linear_no_bias)
next
  fix r self' L Wo
  assume "mip_model (new_object gpm net iv ov) = (r, self')"
    "L \<in> set (self_layers self')" "net ! layer_name L = Linear Wo None"
  then show "\<exists>j W' b'. j < layer_name L \<and> net ! j = Linear W' (Some b') \<and>
           (\<forall>k. j < k \<and> k < layer_name L \<longrightarrow> (\<forall>W'' b''. net ! k \<noteq> Linear W'' (Some b''))) \<and>
           (\<exists>w. layer_params L = DenseLayer w b' \<and> (\<forall>W. Wo = Some W \<longrightarrow> w = transpose W))"
    by (rule mip_model_bias_reused)
qed

theorem C9_witness:
  "fst (mip_model (new_object \<lparr>num_vars = 2, constrs = [], solution = None\<rparr>
          [ReLU, Linear (Some [[1, 2]]) None, ReLU] [[0, 1]] None)) =
     Inl (UnboundLocalError ''layer_bias'') \<and>
   fst (mip_model (new_object \<lparr>num_vars = 2, constrs = [], solution = None\<rparr>
          [Linear (Some [[1, 2]]) (Some [7]), ReLU, Linear (Some [[3]]) None] [[0, 1]] None)) =
     Inr () \<and>
   layer_params (last (self_layers (snd (mip_model
          (new_object \<lparr>num_vars = 2, constrs = [], solution = None\<rparr>
          [Linear (Some [[1, 2]]) (Some [7]), ReLU, Linear (Some [[3]]) None] [[0, 1]] None))))) =
     DenseLayer [[3]] [7]"
proof -
  let ?m = "\<lparr>num_vars = 2, constrs = [], solution = None\<rparr>"
  let ?net1 = "[ReLU, Linear (Some [[1, 2]]) None, ReLU]"
  let ?net2 = "[Linear (Some [[1, 2]]) (Some [7]), ReLU, Linear (Some [[3]]) None]"
  let ?X = "mip_model (new_object ?m ?net2 [[0, 1]] None)"
  let ?L = "last (self_layers (snd ?X))"
  have e1: "?net1 = [ReLU] @ Linear (Some [[1, 2]]) None # [ReLU]" by simp
  have e2: "\<forall>s\<in>set [ReLU]. \<not> isinstance_Linear s" by simp
  from C9_bias_free_linear [of ?net1 ?m "[[0, 1]]" None, THEN conjunct1, rule_format, OF e1]
    e2
  have 1: "fst (mip_model (new_object ?m ?net1 [[0, 1]] None)) =
     Inl (UnboundLocalError ''layer_bias'')" by simp
  have 2: "fst ?X = Inr ()" by code_simp
  have a: "?L \<in> set (self_layers (snd ?X))" by code_simp
  have n: "layer_name ?L = 2" by code_simp
  then have b: "?net2 ! layer_name ?L = Linear (Some [[3]]) None" by simp
  from C9_bias_free_linear [of ?net2 ?m "[[0, 1]]" None, THEN conjunct2, rule_format,
      OF prod.collapse [symmetric] a b]
  obtain j W' b' w where j: "j < layer_name ?L" "?net2 ! j = Linear W' (Some b')"
    "layer_params ?L = DenseLayer w b'" "\<forall>W. Some [[3]] = Some W \<longrightarrow> w = transpose W"
    by blast
  from j(4) have w: "w = transpose [[3]]" by simp
  from j(1) n have "j = 0 \<or> j = 1" by auto
  with j(2) have "b' = [7]" by auto
  moreover have "transpose [[3 :: real]] = [[3]]" by code_simp
  ultimately have 3: "layer_params ?L = DenseLayer [[3]] [7]" using j(3) w by simp
  from 1 2 3 show ?thesis by blast
qed

end
